theory Spec2Isabelle
  imports Complex_Main
begin

section \<open>The script \<open>scripts/plot_spectra.py\<close>\<close>

text \<open>
  The script parses its command line, opens the ROACH board, derives the plotting
  parameters, builds one subplot per spectrum, sets two registers and then redraws the
  spectra on every animation tick.

  Conventions of the embedding.
  \<^item> The script is Python 2 code (it sits on the ROACH control library): \<open>/\<close> on two
    integers is floor division, which is what makes the slice bounds of line 43 integers.
  \<^item> Python integers are \<open>int\<close>. The address width is a number of bits and is taken as a
    \<open>nat\<close>: with a negative width \<open>2**awidth\<close> would leave the integers.
  \<^item> A finite floating-point value (bandwidth, frequencies, scaled spectra) is read as
    the real it stands for, and rounding is not modelled: of the frequency axis only
    what does not depend on rounding is stated below. The full-scale reference can be
    infinite, which the figure builder rejects, so it is a \<open>npfloat\<close>.
  \<^item> Every exception the script can run into on the way is a value of \<open>error\<close>: its own
    and the \<open>ValueError\<close> of \<open>np.linspace\<close> and of \<open>set_ylim\<close>. The calls into
    \<open>calandigital\<close> are taken to return.
\<close>

datatype error = UsageError | TypeError | ZeroDivisionError | ValueError | KeyError

subsection \<open>Command line (lines 7 to 34)\<close>

text \<open>
  The namespace \<open>parse_args\<close> returns. A destination without a declared default is
  \<open>None\<close> until its flag is seen; this is the case for \<open>ip\<close>, \<open>boffile\<close> and
  \<open>bramnames\<close>.
\<close>

record config =
  ip :: "string option"
  boffile :: "string option"
  rver :: int
  bramnames :: "string list option"
  nspecs :: int
  dtype :: string
  awidth :: nat
  dwidth :: int
  bandwidth :: real
  nbits :: int
  count_reg :: string
  acc_reg :: string
  acclen :: int

text \<open>
  One occurrence of a flag on the command line, with its values already converted by the
  flag's \<open>type\<close>. \<open>Bramnames\<close> has \<open>nargs="*"\<close>: it takes any number of names, also none.
\<close>

datatype arg =
    Ip string
  | Bof string
  | Rver int
  | Bramnames "string list"
  | Nspecs int
  | Dtype string
  | Awidth nat
  | Dwidth int
  | Bandwidth real
  | Nbits int
  | Countreg string
  | Accreg string
  | Acclen int

definition defaults :: config where
  "defaults =
     \<lparr>ip = None, boffile = None, rver = 2, bramnames = None, nspecs = 2,
      dtype = ''>i8'', awidth = 9, dwidth = 64, bandwidth = 1080, nbits = 8,
      count_reg = ''cnt_rst'', acc_reg = ''acc_len'', acclen = 2 ^ 16\<rparr>"

text \<open>Storing one flag; \<open>choices\<close> are checked when the flag is read.\<close>

fun store :: "arg \<Rightarrow> config \<Rightarrow> error + config" where
  "store (Ip s) c = Inr (c\<lparr>ip := Some s\<rparr>)"
| "store (Bof s) c = Inr (c\<lparr>boffile := Some s\<rparr>)"
| "store (Rver n) c = (if n \<in> {1, 2} then Inr (c\<lparr>rver := n\<rparr>) else Inl UsageError)"
| "store (Bramnames ns) c = Inr (c\<lparr>bramnames := Some ns\<rparr>)"
| "store (Nspecs n) c =
     (if n \<in> {1, 2, 4, 16} then Inr (c\<lparr>nspecs := n\<rparr>) else Inl UsageError)"
| "store (Dtype s) c = Inr (c\<lparr>dtype := s\<rparr>)"
| "store (Awidth n) c = Inr (c\<lparr>awidth := n\<rparr>)"
| "store (Dwidth n) c = Inr (c\<lparr>dwidth := n\<rparr>)"
| "store (Bandwidth x) c = Inr (c\<lparr>bandwidth := x\<rparr>)"
| "store (Nbits n) c = Inr (c\<lparr>nbits := n\<rparr>)"
| "store (Countreg s) c = Inr (c\<lparr>count_reg := s\<rparr>)"
| "store (Accreg s) c = Inr (c\<lparr>acc_reg := s\<rparr>)"
| "store (Acclen n) c = Inr (c\<lparr>acclen := n\<rparr>)"

fun store_all :: "arg list \<Rightarrow> config \<Rightarrow> error + config" where
  "store_all [] c = Inr c"
| "store_all (a # as) c =
     (case store a c of Inl e \<Rightarrow> Inl e | Inr c' \<Rightarrow> store_all as c')"

text \<open>\<open>-i\<close> is the only required flag; its absence is reported after the last flag.\<close>

definition parse_args :: "arg list \<Rightarrow> error + config" where
  "parse_args argv =
     (case store_all argv defaults of
        Inl e \<Rightarrow> Inl e
      | Inr c \<Rightarrow> (if ip c = None then Inl UsageError else Inr c))"

subsection \<open>Python slices and ranges\<close>

text \<open>A slice bound: a negative bound counts from the end, and both ends are clipped.\<close>

definition slice_bound :: "nat \<Rightarrow> int \<Rightarrow> nat" where
  "slice_bound n i = (if i < 0 then nat (max 0 (int n + i)) else min (nat i) n)"

definition pyslice :: "'a list \<Rightarrow> int \<Rightarrow> int \<Rightarrow> 'a list" where
  "pyslice xs a b =
     (let lo = slice_bound (length xs) a; hi = slice_bound (length xs) b
      in take (hi - lo) (drop lo xs))"

definition pyrange :: "int \<Rightarrow> int list" where
  "pyrange n = map int [0..<nat n]"

subsection \<open>Derived parameters (lines 42 to 46)\<close>

text \<open>
  \<open>np.linspace(start, stop, num, endpoint=False)\<close>: \<open>num\<close> samples \<open>start + i * step\<close>
  with \<open>step = (stop - start) / num\<close>; a negative \<open>num\<close> is a \<open>ValueError\<close>. In numpy
  every sample is a rounded double; here it is the exact product, so a theorem may rely
  on the number of samples and on the first one, which rounding cannot change, and on
  no other value.
\<close>

definition linspace :: "real \<Rightarrow> real \<Rightarrow> int \<Rightarrow> error + real list" where
  "linspace start stop num =
     (if num < 0 then Inl ValueError
      else Inr (map (\<lambda>i. real i * ((stop - start) / real_of_int num) + start)
                  [0..<nat num]))"

text \<open>
  A double that need not be finite, with the operations line 46 and line 81 apply to it:
  a finite summand, a finite factor and the sign change.
\<close>

datatype npfloat = Finite real | PosInf | NegInf | NaN

fun fadd :: "real \<Rightarrow> npfloat \<Rightarrow> npfloat" where
  "fadd c (Finite x) = Finite (c + x)"
| "fadd c PosInf = PosInf"
| "fadd c NegInf = NegInf"
| "fadd c NaN = NaN"

fun fmul :: "real \<Rightarrow> npfloat \<Rightarrow> npfloat" where
  "fmul k (Finite x) = Finite (k * x)"
| "fmul k PosInf = (if 0 < k then PosInf else if k < 0 then NegInf else NaN)"
| "fmul k NegInf = (if 0 < k then NegInf else if k < 0 then PosInf else NaN)"
| "fmul k NaN = NaN"

fun fneg :: "npfloat \<Rightarrow> npfloat" where
  "fneg (Finite x) = Finite (- x)"
| "fneg PosInf = NegInf"
| "fneg NegInf = PosInf"
| "fneg NaN = NaN"

text \<open>\<open>np.log10\<close> of an integer: \<open>-inf\<close> at 0 and \<open>nan\<close> below, each with a warning only.\<close>

definition log10 :: "int \<Rightarrow> npfloat" where
  "log10 n = (if 0 < n then Finite (log 10 (real_of_int n)) else if n = 0 then NegInf else NaN)"

record params =
  nbrams :: int
  specbrams_list :: "string list list"
  nchannels :: int
  freqs :: "real list"
  dBFS :: npfloat

text \<open>
  Line 42 raises \<open>TypeError\<close> on \<open>len(None)\<close> and \<open>ZeroDivisionError\<close> on a zero
  spectra count; line 45 raises when the channel count is negative.
\<close>

definition derive :: "config \<Rightarrow> error + params" where
  "derive args =
     (case bramnames args of
        None \<Rightarrow> Inl TypeError
      | Some bn \<Rightarrow>
          if nspecs args = 0 then Inl ZeroDivisionError
          else
            let nb = int (length bn) div nspecs args;
                sl = map (\<lambda>i. pyslice bn (i * nb) ((i + 1) * nb)) (pyrange (nspecs args));
                nch = 2 ^ awidth args * nb
            in (case linspace 0 (bandwidth args) nch of
                  Inl e \<Rightarrow> Inl e
                | Inr fr \<Rightarrow>
                    Inr \<lparr>nbrams = nb, specbrams_list = sl, nchannels = nch, freqs = fr,
                         dBFS = fadd (6.02 * real_of_int (nbits args) + 1.76)
                                  (fmul 10 (log10 nch))\<rparr>))"

subsection \<open>The figure (lines 69 to 90)\<close>

text \<open>
  Matplotlib's axes and lines are objects that the figure, the array of axes and the
  returned list all refer to. The figure therefore owns two stores, one of axes and one
  of lines, and everything else holds indices into them: \<open>grid\<close> is the array that
  \<open>plt.subplots\<close> returns, row by row, and an axes lists the lines drawn on it.
\<close>

record line2d =
  xdata :: "real list"
  ydata :: "real list"
  animated :: bool

record axes =
  xlim :: "real \<times> real"
  ylim :: "real \<times> real"
  xlabel :: string
  ylabel :: string
  title :: string
  grid_on :: bool
  ax_lines :: "nat list"

record figure =
  grid :: "nat list list"
  tight_layout :: bool
  axstore :: "axes list"
  artists :: "line2d list"

definition new_axes :: axes where
  "new_axes = \<lparr>xlim = (0, 1), ylim = (0, 1), xlabel = [], ylabel = [], title = [],
               grid_on = False, ax_lines = []\<rparr>"

text \<open>
  \<open>plt.subplots(r, c, squeeze=False)\<close>: a new figure with \<open>r * c\<close> axes, created row
  by row, and the \<open>r\<close> by \<open>c\<close> array of them.
\<close>

definition subplots :: "nat \<Rightarrow> nat \<Rightarrow> figure" where
  "subplots r c =
     \<lparr>grid = map (\<lambda>i. map (\<lambda>j. i * c + j) [0..<c]) [0..<r],
      tight_layout = False,
      axstore = replicate (r * c) new_axes,
      artists = []\<rparr>"

text \<open>\<open>axes.flatten()\<close> walks the array in row-major order.\<close>

definition flatten :: "'a list list \<Rightarrow> 'a list" where
  "flatten g = concat g"

definition enumerate :: "'a list \<Rightarrow> (nat \<times> 'a) list" where
  "enumerate xs = zip [0..<length xs] xs"

text \<open>\<open>str(i)\<close> for a non-negative integer: its decimal digits.\<close>

definition digit :: "nat \<Rightarrow> char" where
  "digit d = char_of (48 + d)"

function str :: "nat \<Rightarrow> string" where
  "str n = (if n < 10 then [digit n] else str (n div 10) @ [digit (n mod 10)])"
  by pat_completeness auto
termination
  by (relation "measure (\<lambda>n. n)") auto

declare str.simps [simp del]

definition axmap :: "int \<rightharpoonup> nat \<times> nat" where
  "axmap = [1 \<mapsto> (1, 1), 2 \<mapsto> (1, 2), 4 \<mapsto> (2, 2), 16 \<mapsto> (4, 4)]"

text \<open>\<open>ax.set_ylim(bottom, top)\<close> refuses a limit that is not finite.\<close>

definition set_ylim :: "npfloat \<Rightarrow> real \<Rightarrow> axes \<Rightarrow> error + axes" where
  "set_ylim lo hi a =
     (case lo of Finite l \<Rightarrow> Inr (a\<lparr>ylim := (l, hi)\<rparr>) | _ \<Rightarrow> Inl ValueError)"

text \<open>Lines 80 to 85 for the subplot at position \<open>i\<close> of the traversal.\<close>

definition configure :: "real \<Rightarrow> npfloat \<Rightarrow> nat \<Rightarrow> axes \<Rightarrow> error + axes" where
  "configure bw dB i a =
     (case set_ylim (fadd (- 2) (fneg dB)) 0 (a\<lparr>xlim := (0, bw)\<rparr>) of
        Inl e \<Rightarrow> Inl e
      | Inr a' \<Rightarrow>
          Inr (a'\<lparr>xlabel := ''Frequency [MHz]'', ylabel := ''Power [dBFS]'',
                  title := ''In '' @ str i, grid_on := True\<rparr>))"

text \<open>The line that \<open>ax.plot([], [], animated=True)\<close> creates.\<close>

definition new_line :: line2d where
  "new_line = \<lparr>xdata = [], ydata = [], animated = True\<rparr>"

text \<open>
  The body of the loop of lines 79 to 88 for subplot \<open>ax\<close> at position \<open>i\<close>: the axes is
  configured, a new empty line is drawn on it and appended to \<open>lines\<close>.
\<close>

definition setup_axes ::
  "real \<Rightarrow> npfloat \<Rightarrow> nat \<times> nat \<Rightarrow> figure \<times> nat list \<Rightarrow> error + figure \<times> nat list" where
  "setup_axes bw dB p st =
     (case (p, st) of ((i, ax), (fig, lines)) \<Rightarrow>
        (case configure bw dB i (axstore fig ! ax) of
           Inl e \<Rightarrow> Inl e
         | Inr a \<Rightarrow>
             let line = length (artists fig)
             in Inr (fig\<lparr>axstore := (axstore fig)[ax := a\<lparr>ax_lines := ax_lines a @ [line]\<rparr>],
                         artists := artists fig @ [new_line]\<rparr>,
                     lines @ [line])))"

text \<open>The loop itself: it ends at the first subplot whose limits are refused.\<close>

fun axes_loop ::
  "real \<Rightarrow> npfloat \<Rightarrow> (nat \<times> nat) list \<Rightarrow> figure \<times> nat list \<Rightarrow> error + figure \<times> nat list" where
  "axes_loop bw dB [] st = Inr st"
| "axes_loop bw dB (p # ps) st =
     (case setup_axes bw dB p st of Inl e \<Rightarrow> Inl e | Inr st' \<Rightarrow> axes_loop bw dB ps st')"

text \<open>
  What the body leaves in the store for the subplot at position \<open>i\<close> when the full-scale
  reference is the finite \<open>d\<close> and the line drawn on the subplot is line \<open>i\<close>.
\<close>

definition configured :: "real \<Rightarrow> real \<Rightarrow> nat \<Rightarrow> axes \<Rightarrow> axes" where
  "configured bw d i a =
     a\<lparr>xlim := (0, bw), ylim := (- d - 2, 0),
       xlabel := ''Frequency [MHz]'', ylabel := ''Power [dBFS]'',
       title := ''In '' @ str i, grid_on := True, ax_lines := ax_lines a @ [i]\<rparr>"

text \<open>An spectra count that is not a key of \<open>axmap\<close> is a \<open>KeyError\<close>.\<close>

definition create_figure :: "int \<Rightarrow> real \<Rightarrow> npfloat \<Rightarrow> error + figure \<times> nat list" where
  "create_figure ns bw dB =
     (case axmap ns of
        None \<Rightarrow> Inl KeyError
      | Some (r, c) \<Rightarrow>
          let fig = (subplots r c)\<lparr>tight_layout := True\<rparr>
          in axes_loop bw dB (enumerate (flatten (grid fig))) (fig, []))"

subsection \<open>The board and the library\<close>

text \<open>
  The handle \<open>cd.initialize_roach\<close> returns stands for the connection it opened. What
  the script does to the outside world is recorded as a list of events, oldest first: a
  read carries the samples it returned, of a type \<open>'r\<close> left open.
\<close>

datatype handle = Roach "string option" "string option" int

datatype 'r event =
    InitRoach "string option" "string option" int
  | Print string
  | WriteInt handle string int
  | ReadInterleave handle "string list" nat int string 'r
  | ScaleSpecdata 'r int int int
  | SetData nat "real list" "real list"

text \<open>
  The two \<open>calandigital\<close> calls of the frame callback. What the board returns may depend
  on everything that happened before, so a read is a function of the events so far; the
  scaling is a function of its arguments.
\<close>

record 'r calandigital =
  read_interleave_data ::
    "'r event list \<Rightarrow> handle \<Rightarrow> string list \<Rightarrow> nat \<Rightarrow> int \<Rightarrow> string \<Rightarrow> 'r"
  scale_and_dBFS_specdata :: "'r \<Rightarrow> int \<Rightarrow> int \<Rightarrow> int \<Rightarrow> real list"

subsection \<open>The frame callback (lines 56 to 64)\<close>

text \<open>
  The variables of \<open>main\<close> that \<open>animate\<close> closes over, the figure whose lines it
  updates, and the events so far.
\<close>

record 'r state =
  args :: config
  roach :: handle
  derived :: params
  fig :: figure
  lines :: "nat list"
  trace :: "'r event list"

definition emit :: "'r event \<Rightarrow> 'r state \<Rightarrow> 'r state" where
  "emit e s = s\<lparr>trace := trace s @ [e]\<rparr>"

text \<open>\<open>line.set_data(x, y)\<close> replaces the data of one line of the figure.\<close>

definition set_data :: "nat \<Rightarrow> real list \<Rightarrow> real list \<Rightarrow> 'r state \<Rightarrow> 'r state" where
  "set_data line x y s =
     emit (SetData line x y)
       (s\<lparr>fig := (fig s)\<lparr>artists :=
             (artists (fig s))[line := (artists (fig s) ! line)\<lparr>xdata := x, ydata := y\<rparr>]\<rparr>\<rparr>)"

text \<open>The body of the loop of lines 57 to 63 for one pair of \<open>zip(lines, specbrams_list)\<close>.\<close>

definition animate_body :: "'r calandigital \<Rightarrow> nat \<times> string list \<Rightarrow> 'r state \<Rightarrow> 'r state" where
  "animate_body cd p s =
     (case p of (line, specbrams) \<Rightarrow>
        let specdata = read_interleave_data cd (trace s) (roach s) specbrams
                         (awidth (args s)) (dwidth (args s)) (dtype (args s));
            s1 = emit (ReadInterleave (roach s) specbrams
                         (awidth (args s)) (dwidth (args s)) (dtype (args s)) specdata) s;
            specdata' = scale_and_dBFS_specdata cd specdata (acclen (args s))
                          (nbits (args s)) (nchannels (derived s));
            s2 = emit (ScaleSpecdata specdata (acclen (args s)) (nbits (args s))
                         (nchannels (derived s))) s1
        in set_data line (freqs (derived s)) specdata' s2)"

text \<open>One tick: the state after it and the list of lines it returns.\<close>

definition animate :: "'r calandigital \<Rightarrow> 'r state \<Rightarrow> 'r state \<times> nat list" where
  "animate cd s = (fold (animate_body cd) (zip (lines s) (specbrams_list (derived s))) s, lines s)"

subsection \<open>\<open>main\<close> (lines 36 to 67)\<close>

text \<open>
  \<open>FuncAnimation\<close> and \<open>plt.show\<close> call \<open>animate\<close> until the window is closed; the
  number of ticks is the parameter \<open>n\<close>.
\<close>

primrec run_frames :: "'r calandigital \<Rightarrow> nat \<Rightarrow> 'r state \<Rightarrow> 'r state" where
  "run_frames cd 0 s = s"
| "run_frames cd (Suc n) s = run_frames cd n (fst (animate cd s))"

text \<open>Lines 50 to 54.\<close>

definition set_registers :: "'r state \<Rightarrow> 'r state" where
  "set_registers s =
     emit (Print ''done'')
       (emit (WriteInt (roach s) (count_reg (args s)) 0)
          (emit (WriteInt (roach s) (count_reg (args s)) 1)
             (emit (WriteInt (roach s) (acc_reg (args s)) (acclen (args s)))
                (emit (Print ''Setting and resetting registers...'') s))))"

text \<open>
  A run of \<open>main\<close> on a parsed command line, for \<open>n\<close> ticks: the final state, or the
  exception that ended the run together with the events up to it.
\<close>

definition main ::
  "'r calandigital \<Rightarrow> config \<Rightarrow> nat \<Rightarrow> error \<times> 'r event list + 'r state" where
  "main cd a n =
     (let tr = [InitRoach (ip a) (boffile a) (rver a)];
          r = Roach (ip a) (boffile a) (rver a)
      in (case derive a of
            Inl e \<Rightarrow> Inl (e, tr)
          | Inr p \<Rightarrow>
              (case create_figure (nspecs a) (bandwidth a) (dBFS p) of
                 Inl e \<Rightarrow> Inl (e, tr)
               | Inr (f, ls) \<Rightarrow>
                   Inr (run_frames cd n
                          (set_registers
                             \<lparr>args = a, roach = r, derived = p, fig = f, lines = ls,
                              trace = tr\<rparr>)))))"

text \<open>The script from the command line on.\<close>

definition script ::
  "'r calandigital \<Rightarrow> arg list \<Rightarrow> nat \<Rightarrow> error \<times> 'r event list + 'r state" where
  "script cd argv n =
     (case parse_args argv of Inl e \<Rightarrow> Inl (e, []) | Inr a \<Rightarrow> main cd a n)"

subsection \<open>Reading the events\<close>

text \<open>
  The events of one pass through the loop body of \<open>animate\<close> in state \<open>s\<close> for the
  pair \<open>p\<close>, when the read returned \<open>d\<close>: the read, the scaling of \<open>d\<close> and the
  assignment of the scaled data to the line.
\<close>

definition pair_events ::
  "'r calandigital \<Rightarrow> 'r state \<Rightarrow> nat \<times> string list \<Rightarrow> 'r \<Rightarrow> 'r event list" where
  "pair_events cd s p d =
     (case p of (line, specbrams) \<Rightarrow>
        [ReadInterleave (roach s) specbrams (awidth (args s)) (dwidth (args s))
           (dtype (args s)) d,
         ScaleSpecdata d (acclen (args s)) (nbits (args s)) (nchannels (derived s)),
         SetData line (freqs (derived s))
           (scale_and_dBFS_specdata cd d (acclen (args s)) (nbits (args s))
              (nchannels (derived s)))])"

fun is_read :: "'r event \<Rightarrow> bool" where
  "is_read (ReadInterleave h bs aw dw dt d) = True"
| "is_read e = False"

fun is_write :: "'r event \<Rightarrow> bool" where
  "is_write (WriteInt h reg v) = True"
| "is_write e = False"

fun is_init :: "'r event \<Rightarrow> bool" where
  "is_init (InitRoach i b v) = True"
| "is_init e = False"

subsection \<open>Sample command lines\<close>

text \<open>
  Parsed command lines used to exercise the theorems below: two spectra (the default)
  over four and over five block names with a one-bit address, and the first of them with
  a zero bandwidth.
\<close>

definition four_names :: "string list" where
  "four_names = [''dout0_0'', ''dout0_1'', ''dout1_0'', ''dout1_1'']"


definition four_brams :: config where
  "four_brams = defaults\<lparr>ip := Some ''10.0.0.2'', awidth := 1, bramnames := Some four_names\<rparr>"




definition two_brams :: config where
  "two_brams = defaults\<lparr>ip := Some ''10.0.0.2'', bramnames := Some [''dout0'', ''dout1'']\<rparr>"


text \<open>A command line with the required flag only.\<close>

definition only_ip :: "arg list" where
  "only_ip = [Ip ''10.0.0.2'']"

section \<open>Properties\<close>

subsection \<open>Slices of the block names\<close>

lemma pyslice_nat: "pyslice xs (int a) (int b) = take (b - a) (drop a xs)"
  by (auto simp: pyslice_def slice_bound_def Let_def min_def)

lemma pyrange_nat: "pyrange (int n) = map int [0..<n]"
  by (simp add: pyrange_def)

lemma slices_nat:
  "map (\<lambda>i. pyslice bn (i * int k) ((i + 1) * int k)) (pyrange (int n))
   = map (\<lambda>i. take k (drop (i * k) bn)) [0..<n]"
proof -
  have "pyslice bn (int i * int k) ((int i + 1) * int k) = take k (drop (i * k) bn)" for i
  proof -
    have "pyslice bn (int (i * k)) (int ((i + 1) * k)) = take ((i + 1) * k - i * k) (drop (i * k) bn)"
      by (rule pyslice_nat)
    then show ?thesis by (simp add: algebra_simps)
  qed
  then show ?thesis by (simp add: pyrange_nat comp_def)
qed

lemma concat_slices:
  "concat (map (\<lambda>i. take k (drop (i * k) xs)) [0..<n]) = take (n * k) xs"
proof (induction n)
  case 0
  then show ?case by simp
next
  case (Suc n)
  have "take (n * k) xs @ take k (drop (n * k) xs) = take (n * k + k) xs"
    by (simp add: take_add)
  with Suc show ?case by (simp add: add.commute)
qed

lemma slice_nth:
  "(i + 1) * k \<le> length xs \<Longrightarrow> take k (drop (i * k) xs) = map (\<lambda>j. xs ! j) [i * k..<(i + 1) * k]"
  by (rule nth_equalityI) (auto simp: algebra_simps)

lemma derive_Some:
  assumes "bramnames a = Some bn" and "0 < nspecs a"
  shows "derive a = Inr \<lparr>nbrams = int (length bn div nat (nspecs a)),
           specbrams_list = map (\<lambda>i. take (length bn div nat (nspecs a))
                                       (drop (i * (length bn div nat (nspecs a))) bn))
                              [0..<nat (nspecs a)],
           nchannels = 2 ^ awidth a * int (length bn div nat (nspecs a)),
           freqs = map (\<lambda>i. real i * (bandwidth a / real_of_int (2 ^ awidth a * int (length bn div nat (nspecs a)))))
                       [0..<2 ^ awidth a * (length bn div nat (nspecs a))],
           dBFS = fadd (6.02 * real_of_int (nbits a) + 1.76)
                    (fmul 10 (log10 (2 ^ awidth a * int (length bn div nat (nspecs a)))))\<rparr>"
proof -
  obtain n where n: "nspecs a = int n" "0 < n"
    using assms(2) by (metis nat_0_iff nat_int zero_less_nat_eq pos_int_cases)
  have d: "int (length bn) div int n = int (length bn div n)"
    by (simp add: zdiv_int)
  have nn: "\<not> (2::int) ^ awidth a * int (length bn div n) < 0"
    by (simp add: not_less)
  show ?thesis
    using assms(1) n nn
    by (simp add: derive_def Let_def d slices_nat linspace_def nat_mult_distrib nat_power_eq)
qed

subsection \<open>Grouping of the block names\<close>

lemma nspecs_pos: "nspecs a \<in> {1, 2, 4, 16} \<Longrightarrow> 0 < nspecs a"
  by auto

text \<open>
  Claim C1. For a spectra count \<open>n\<close> among 1, 2, 4, 16 and \<open>m\<close> block names with \<open>n\<close>
  dividing \<open>m\<close>, the derivation succeeds, the blocks per spectrum are exactly \<open>m / n\<close>,
  and \<open>specbrams_list\<close> has \<open>n\<close> groups, group \<open>i\<close> holding the names at indices
  \<open>i * (m / n)\<close> up to \<open>(i + 1) * (m / n) - 1\<close> in input order; together the groups are
  the whole list.
\<close>

theorem grouping_divisible:
  assumes "bramnames a = Some bn" and "nspecs a \<in> {1, 2, 4, 16}"
    and "nspecs a dvd int (length bn)"
  shows "\<exists>p. derive a = Inr p
           \<and> nbrams p * nspecs a = int (length bn)
           \<and> length (specbrams_list p) = nat (nspecs a)
           \<and> (\<forall>i < nat (nspecs a).
                 specbrams_list p ! i
                 = map (\<lambda>j. bn ! j) [i * nat (nbrams p)..<(i + 1) * nat (nbrams p)])
           \<and> concat (specbrams_list p) = bn"
proof -
  define n where "n = nat (nspecs a)"
  define k where "k = length bn div n"
  have pos: "0 < nspecs a" using assms(2) by (rule nspecs_pos)
  then have n: "nspecs a = int n" "0 < n" by (simp_all add: n_def)
  from assms(3) n have "n dvd length bn" by (simp add: int_dvd_int_iff)
  then have nk: "n * k = length bn" by (simp add: k_def)
  note d = derive_Some [OF assms(1) pos, folded n_def, folded k_def]
  have slice: "take k (drop (i * k) bn) = map (\<lambda>j. bn ! j) [i * k..<(i + 1) * k]" if "i < n" for i
  proof (rule slice_nth)
    from that have "Suc i \<le> n" by simp
    then have "Suc i * k \<le> n * k" by (rule mult_le_mono1)
    with nk show "(i + 1) * k \<le> length bn" by simp
  qed
  have nki: "int k * int n = int (length bn)"
    unfolding nk [symmetric] by simp
  show ?thesis
    unfolding d using n nk nki slice
    by (simp add: concat_slices mult.commute)
qed

theorem grouping_divisible_witness:
  "bramnames four_brams = Some four_names
   \<and> nspecs four_brams \<in> {1, 2, 4, 16}
   \<and> nspecs four_brams dvd int (length four_names)
   \<and> (\<exists>p. derive four_brams = Inr p
           \<and> nbrams p * nspecs four_brams = int (length four_names)
           \<and> length (specbrams_list p) = nat (nspecs four_brams)
           \<and> (\<forall>i < nat (nspecs four_brams).
                 specbrams_list p ! i
                 = map (\<lambda>j. four_names ! j) [i * nat (nbrams p)..<(i + 1) * nat (nbrams p)])
           \<and> concat (specbrams_list p) = four_names)"
proof -
  have h1: "bramnames four_brams = Some four_names"
    by (simp add: four_brams_def)
  have h2: "nspecs four_brams \<in> {1, 2, 4, 16}"
    by (simp add: four_brams_def defaults_def)
  have h3: "nspecs four_brams dvd int (length four_names)"
    by (simp add: four_brams_def defaults_def four_names_def)
  from h1 h2 h3 grouping_divisible [OF h1 h2 h3] show ?thesis by blast
qed


subsection \<open>Channel count and frequency axis\<close>

text \<open>
  Claim C4. For every configuration with block names (and a positive spectra count, as
  the parser guarantees) the derivation returns, and the channel count is 2 to the
  address width times the blocks per spectrum, the latter being the number of block
  names divided by the spectra count.
\<close>

theorem channel_count:
  assumes "bramnames a = Some bn" and "0 < nspecs a"
  shows "\<exists>p. derive a = Inr p
           \<and> nbrams p = int (length bn) div nspecs a
           \<and> nchannels p = 2 ^ awidth a * (int (length bn) div nspecs a)"
proof -
  have "int (length bn) div nspecs a = int (length bn div nat (nspecs a))"
    using assms(2) by (simp add: zdiv_int)
  then show ?thesis
    unfolding derive_Some [OF assms] by simp
qed

theorem channel_count_witness:
  "bramnames four_brams = Some four_names \<and> 0 < nspecs four_brams
   \<and> (\<exists>p. derive four_brams = Inr p
           \<and> nbrams p = int (length four_names) div nspecs four_brams
           \<and> nchannels p = 2 ^ awidth four_brams * (int (length four_names) div nspecs four_brams))"
proof -
  have h1: "bramnames four_brams = Some four_names"
    by (simp add: four_brams_def)
  have h2: "0 < nspecs four_brams"
    by (simp add: four_brams_def defaults_def)
  from h1 h2 channel_count [OF h1 h2] show ?thesis by blast
qed

text \<open>
  Claim C7. Whenever the derivation returns with at least one channel, the full-scale
  reference is 6.02 times the ADC bit count, plus 1.76, plus 10 times the base-10
  logarithm of the channel count; with no channel it is \<open>-inf\<close>, as is the logarithm.
  For 8 bits and 512 channels it is \<open>6.02 * 8 + 1.76 + 10 * log 10 512\<close>.
\<close>

theorem full_scale_reference:
  assumes "derive a = Inr p"
  shows "(0 < nchannels p \<longrightarrow>
            dBFS p = Finite (6.02 * real_of_int (nbits a) + 1.76
                             + 10 * log 10 (real_of_int (nchannels p))))
         \<and> (nchannels p = 0 \<longrightarrow> dBFS p = NegInf)"
proof -
  from assms have "dBFS p = fadd (6.02 * real_of_int (nbits a) + 1.76)
                              (fmul 10 (log10 (nchannels p)))"
    by (auto simp: derive_def Let_def split: option.splits if_splits sum.splits)
  then show ?thesis by (simp add: log10_def)
qed

theorem full_scale_reference_witness:
  "derive two_brams = Inr (projr (derive two_brams))
   \<and> nbits two_brams = 8
   \<and> nchannels (projr (derive two_brams)) = 512
   \<and> dBFS (projr (derive two_brams)) = Finite (6.02 * 8 + 1.76 + 10 * log 10 512)"
proof -
  have h1: "bramnames two_brams = Some [''dout0'', ''dout1'']"
    and h2: "0 < nspecs two_brams"
    by (simp_all add: two_brams_def defaults_def)
  from derive_Some [OF h1 h2] obtain p where d: "derive two_brams = Inr p"
    and n: "nchannels p
            = 2 ^ awidth two_brams * int (length [''dout0'', ''dout1''] div nat (nspecs two_brams))"
    by simp
  have n512: "nchannels p = 512"
    unfolding n by (simp add: two_brams_def defaults_def)
  have b: "nbits two_brams = 8"
    by (simp add: two_brams_def defaults_def)
  from d have h: "derive two_brams = Inr (projr (derive two_brams))" by simp
  from full_scale_reference [OF h] d n512 b
  have "dBFS (projr (derive two_brams)) = Finite (6.02 * 8 + 1.76 + 10 * log 10 512)"
    by simp
  with h b d n512 show ?thesis by simp
qed





subsection \<open>The figure\<close>

lemma concat_rows: "concat (map (\<lambda>i. [i * c..<i * c + c]) [0..<r]) = [0..<r * c]"
proof (induction r)
  case 0
  then show ?case by simp
next
  case (Suc r)
  have "[0..<r * c] @ [r * c..<r * c + c] = [0..<r * c + c]"
    by (metis le_add1 upt_add_eq_append zero_le)
  with Suc show ?case by (simp add: add.commute)
qed

lemma flatten_grid_subplots: "flatten (grid (subplots r c)) = [0..<r * c]"
proof -
  have row: "map (\<lambda>j. i * c + j) [0..<c] = [i * c..<i * c + c]" for i
  proof -
    have "map (\<lambda>j. i * c + j) [0..<c] = map (\<lambda>j. j + i * c) [0..<c]"
      by (simp add: add.commute)
    also have "\<dots> = [i * c..<c + i * c]" by (rule map_add_upt)
    finally show ?thesis by (simp add: add.commute)
  qed
  have "flatten (grid (subplots r c)) = concat (map (\<lambda>i. map (\<lambda>j. i * c + j) [0..<c]) [0..<r])"
    by (simp add: flatten_def subplots_def)
  also have "\<dots> = concat (map (\<lambda>i. [i * c..<i * c + c]) [0..<r])"
    unfolding row ..
  finally show ?thesis by (simp only: concat_rows)
qed

lemma configure_Finite:
  "configure bw (Finite d) i a
   = Inr (a\<lparr>xlim := (0, bw), ylim := (- d - 2, 0),
            xlabel := ''Frequency [MHz]'', ylabel := ''Power [dBFS]'',
            title := ''In '' @ str i, grid_on := True\<rparr>)"
proof -
  have e: "fadd (- 2) (fneg (Finite d)) = Finite (- d - 2)" by simp
  show ?thesis unfolding configure_def e by (simp add: set_ylim_def)
qed

lemma setup_axes_conf:
  "length (artists fg) = i \<Longrightarrow>
   setup_axes bw (Finite d) (i, ax) (fg, ls)
   = Inr (fg\<lparr>axstore := (axstore fg)[ax := configured bw d i (axstore fg ! ax)],
             artists := artists fg @ [new_line]\<rparr>,
          ls @ [i])"
  by (simp add: setup_axes_def configure_Finite configured_def Let_def)

lemma axes_loop_snoc:
  "axes_loop bw dB (ps @ [p]) st
   = (case axes_loop bw dB ps st of Inl e \<Rightarrow> Inl e | Inr st' \<Rightarrow> setup_axes bw dB p st')"
  by (induction ps arbitrary: st) (auto split: sum.splits)

lemma setup_axes_loop:
  assumes "artists f = []"
  shows "n \<le> length (axstore f) \<Longrightarrow>
         axes_loop bw (Finite d) (zip [0..<n] [0..<n]) (f, [])
         = Inr (f\<lparr>axstore := map (\<lambda>j. configured bw d j (axstore f ! j)) [0..<n]
                               @ drop n (axstore f),
                  artists := replicate n new_line\<rparr>,
                [0..<n])"
proof (induction n)
  case 0
  then show ?case using assms by simp
next
  case (Suc n)
  then have n: "n < length (axstore f)" by simp
  let ?done = "map (\<lambda>j. configured bw d j (axstore f ! j)) [0..<n]"
  have z: "zip [0..<Suc n] [0..<Suc n] = zip [0..<n] [0..<n] @ [(n, n)]"
    by simp
  have ih: "axes_loop bw (Finite d) (zip [0..<n] [0..<n]) (f, [])
         = Inr (f\<lparr>axstore := ?done @ drop n (axstore f), artists := replicate n new_line\<rparr>,
                [0..<n])"
    using Suc.IH n by simp
  have len: "length ?done = n" by simp
  have nth: "(?done @ drop n (axstore f)) ! n = axstore f ! n"
    using n by (simp add: nth_append)
  have "(?done @ drop n (axstore f))[n := x] = ?done @ (drop n (axstore f))[0 := x]" for x
    using len by (simp add: list_update_append)
  also have "(drop n (axstore f))[0 := x] = x # drop (Suc n) (axstore f)" for x
    using n by (simp add: Cons_nth_drop_Suc [symmetric])
  finally have upd: "(?done @ drop n (axstore f))[n := x] = ?done @ x # drop (Suc n) (axstore f)" for x .
  have step: "setup_axes bw (Finite d) (n, n)
                (f\<lparr>axstore := ?done @ drop n (axstore f), artists := replicate n new_line\<rparr>,
                 [0..<n])
              = Inr (f\<lparr>axstore := map (\<lambda>j. configured bw d j (axstore f ! j)) [0..<Suc n]
                           @ drop (Suc n) (axstore f),
                   artists := replicate (Suc n) new_line\<rparr>,
                 [0..<Suc n])"
    by (subst setup_axes_conf) (simp_all add: nth upd replicate_append_same)
  show ?case
    unfolding z axes_loop_snoc ih by (simp only: sum.case step)
qed

lemma create_figure_shape:
  assumes "axmap ns = Some (r, c)"
  shows "create_figure ns bw (Finite d)
         = Inr ((subplots r c)
                  \<lparr>tight_layout := True,
                   axstore := map (\<lambda>j. configured bw d j new_axes) [0..<r * c],
                   artists := replicate (r * c) new_line\<rparr>,
                [0..<r * c])"
proof -
  let ?fig = "(subplots r c)\<lparr>tight_layout := True\<rparr>"
  have st: "axstore ?fig = replicate (r * c) new_axes" and ar: "artists ?fig = []"
    and gr: "grid ?fig = grid (subplots r c)"
    by (simp_all add: subplots_def)
  have en: "enumerate (flatten (grid ?fig)) = zip [0..<r * c] [0..<r * c]"
    unfolding gr flatten_grid_subplots by (simp add: enumerate_def)
  have m: "map (\<lambda>j. configured bw d j (axstore ?fig ! j)) [0..<r * c]
           = map (\<lambda>j. configured bw d j new_axes) [0..<r * c]"
    by (simp add: st)
  have "axes_loop bw (Finite d) (enumerate (flatten (grid ?fig))) (?fig, [])
        = Inr (?fig\<lparr>axstore := map (\<lambda>j. configured bw d j new_axes) [0..<r * c]
                               @ drop (r * c) (axstore ?fig),
                 artists := replicate (r * c) new_line\<rparr>,
           [0..<r * c])"
    unfolding en m [symmetric] by (rule setup_axes_loop [OF ar]) (simp add: st)
  then show ?thesis
    using assms by (simp add: create_figure_def Let_def st)
qed


lemma cell_less: "i < r \<Longrightarrow> j < c \<Longrightarrow> i * c + j < r * (c::nat)"
proof -
  assume i: "i < r" and j: "j < c"
  from j have "i * c + j < Suc i * c" by simp
  also from i have "Suc i * c \<le> r * c" by (intro mult_le_mono1) simp
  finally show ?thesis .
qed

lemma grid_subplots_nth: "i < r \<Longrightarrow> j < c \<Longrightarrow> grid (subplots r c) ! i ! j = i * c + j"
  by (simp add: subplots_def)

text \<open>
  Claim C6. For a spectra count among 1, 2, 4, 16 and a finite full-scale reference the
  figure builder returns; the grid
  is 1 by 1, 1 by 2, 2 by 2 and 4 by 4 respectively; the subplot in row \<open>i\<close> and column
  \<open>j\<close>, the one at position \<open>i * c + j\<close> of the row-major traversal, is titled
  \<open>In\<close> followed by that position and carries exactly one line, which is the line at
  that position of the returned list; the returned lines are distinct and as many as
  the spectra count.
\<close>

theorem figure_grid:
  assumes "ns \<in> {1, 2, 4, 16}"
  shows "\<exists>f ls r c. create_figure ns bw (Finite dB) = Inr (f, ls)
           \<and> (r, c) = (if ns = 1 then (1, 1) else if ns = 2 then (1, 2)
                       else if ns = 4 then (2, 2) else (4, 4))
           \<and> length (grid f) = r \<and> (\<forall>row \<in> set (grid f). length row = c)
           \<and> length (axstore f) = r * c
           \<and> int (length ls) = ns \<and> distinct ls
           \<and> (\<forall>i < r. \<forall>j < c.
                 title (axstore f ! (grid f ! i ! j)) = ''In '' @ str (i * c + j)
                 \<and> ax_lines (axstore f ! (grid f ! i ! j)) = [ls ! (i * c + j)]
                 \<and> ls ! (i * c + j) < length (artists f))"
proof -
  obtain r c where rc: "axmap ns = Some (r, c)"
    and shape: "(r, c) = (if ns = 1 then (1, 1) else if ns = 2 then (1, 2)
                          else if ns = 4 then (2, 2) else (4, 4))"
    and count: "int (r * c) = ns"
    using assms by (auto simp: axmap_def)
  let ?f = "(subplots r c)
              \<lparr>tight_layout := True,
               axstore := map (\<lambda>j. configured bw dB j new_axes) [0..<r * c],
               artists := replicate (r * c) new_line\<rparr>"
  have cf: "create_figure ns bw (Finite dB) = Inr (?f, [0..<r * c])"
    by (rule create_figure_shape [OF rc])
  have g: "grid ?f = grid (subplots r c)" by simp
  have rows: "length (grid ?f) = r" "\<forall>row \<in> set (grid ?f). length row = c"
    by (auto simp: subplots_def)
  have cells: "title (axstore ?f ! (grid ?f ! i ! j)) = ''In '' @ str (i * c + j)
                 \<and> ax_lines (axstore ?f ! (grid ?f ! i ! j)) = [[0..<r * c] ! (i * c + j)]
                 \<and> [0..<r * c] ! (i * c + j) < length (artists ?f)"
    if "i < r" and "j < c" for i j
    using that cell_less [OF that]
    by (simp add: g grid_subplots_nth configured_def new_axes_def)
  have "length (axstore ?f) = r * c" by simp
  moreover have "int (length [0..<r * c]) = ns" using count by simp
  moreover have "distinct [0..<r * c]" by simp
  ultimately show ?thesis
    using cf shape rows cells by blast
qed

theorem figure_grid_witness:
  "(4::int) \<in> {1, 2, 4, 16}
   \<and> (\<exists>f ls r c. create_figure 4 1080 (Finite 60) = Inr (f, ls)
           \<and> (r, c) = (if (4::int) = 1 then (1, 1) else if (4::int) = 2 then (1, 2)
                       else if (4::int) = 4 then (2, 2) else (4, 4))
           \<and> length (grid f) = r \<and> (\<forall>row \<in> set (grid f). length row = c)
           \<and> length (axstore f) = r * c
           \<and> int (length ls) = 4 \<and> distinct ls
           \<and> (\<forall>i < r. \<forall>j < c.
                 title (axstore f ! (grid f ! i ! j)) = ''In '' @ str (i * c + j)
                 \<and> ax_lines (axstore f ! (grid f ! i ! j)) = [ls ! (i * c + j)]
                 \<and> ls ! (i * c + j) < length (artists f)))"
proof -
  have h: "(4::int) \<in> {1, 2, 4, 16}" by simp
  from h figure_grid [OF h, of 1080 60] show ?thesis by blast
qed

text \<open>Any other spectra count is not a key of the lookup.\<close>

lemma create_figure_KeyError: "ns \<notin> {1, 2, 4, 16} \<Longrightarrow> create_figure ns bw dB = Inl KeyError"
  by (simp add: create_figure_def axmap_def)

subsection \<open>The frame callback\<close>

lemma animate_body_trace:
  "trace (animate_body cd p s)
   = trace s @ pair_events cd s p
       (read_interleave_data cd (trace s) (roach s) (snd p)
          (awidth (args s)) (dwidth (args s)) (dtype (args s)))"
  by (cases p) (simp add: animate_body_def pair_events_def set_data_def emit_def Let_def)

lemma animate_body_env:
  "args (animate_body cd p s) = args s"
  "roach (animate_body cd p s) = roach s"
  "derived (animate_body cd p s) = derived s"
  "lines (animate_body cd p s) = lines s"
  by (cases p; simp add: animate_body_def set_data_def emit_def Let_def)+

lemma animate_body_fig:
  "fig (animate_body cd p s)
   = (fig s)\<lparr>artists := (artists (fig s))
        [fst p := (artists (fig s) ! fst p)
           \<lparr>xdata := freqs (derived s),
            ydata := scale_and_dBFS_specdata cd
              (read_interleave_data cd (trace s) (roach s) (snd p)
                 (awidth (args s)) (dwidth (args s)) (dtype (args s)))
              (acclen (args s)) (nbits (args s)) (nchannels (derived s))\<rparr>]\<rparr>"
  by (cases p) (simp add: animate_body_def set_data_def emit_def Let_def)

lemma pair_events_cong:
  "args s' = args s \<Longrightarrow> roach s' = roach s \<Longrightarrow> derived s' = derived s \<Longrightarrow>
   pair_events cd s' = pair_events cd s"
  by (intro ext) (simp add: pair_events_def)

lemma map_update_same: "(map f xs)[i := f (xs ! i)] = map f xs"
proof (cases "i < length xs")
  case True
  then show ?thesis by (simp add: list_update_same_conv)
next
  case False
  then have "length (map f xs) \<le> i" by simp
  then show ?thesis by (rule list_update_beyond)
qed

lemma fold_animate_body_env:
  "args (fold (animate_body cd) ps s) = args s
   \<and> roach (fold (animate_body cd) ps s) = roach s
   \<and> derived (fold (animate_body cd) ps s) = derived s
   \<and> lines (fold (animate_body cd) ps s) = lines s
   \<and> grid (fig (fold (animate_body cd) ps s)) = grid (fig s)
   \<and> axstore (fig (fold (animate_body cd) ps s)) = axstore (fig s)
   \<and> tight_layout (fig (fold (animate_body cd) ps s)) = tight_layout (fig s)
   \<and> length (artists (fig (fold (animate_body cd) ps s))) = length (artists (fig s))
   \<and> map animated (artists (fig (fold (animate_body cd) ps s))) = map animated (artists (fig s))"
proof (induction ps arbitrary: s)
  case Nil
  then show ?case by simp
next
  case (Cons p ps)
  have "map animated (artists (fig (animate_body cd p s))) = map animated (artists (fig s))"
    by (simp add: animate_body_fig map_update map_update_same)
  then show ?case
    using Cons.IH [of "animate_body cd p s"]
    by (simp add: animate_body_env) (simp add: animate_body_fig)
qed

lemma fold_animate_body_untouched:
  "l \<notin> fst ` set ps \<Longrightarrow>
   artists (fig (fold (animate_body cd) ps s)) ! l = artists (fig s) ! l"
proof (induction ps arbitrary: s)
  case Nil
  then show ?case by simp
next
  case (Cons p ps)
  then have "l \<noteq> fst p" and "l \<notin> fst ` set ps" by auto
  with Cons.IH [of "animate_body cd p s"] show ?case
    by (simp add: animate_body_fig)
qed

lemma fold_animate_body:
  assumes "distinct (map fst ps)" and "\<forall>p \<in> set ps. fst p < length (artists (fig s))"
  shows "\<exists>ds. length ds = length ps
           \<and> (\<forall>k < length ps.
                 ds ! k
                 = read_interleave_data cd
                     (trace s @ concat (map (\<lambda>(p, d). pair_events cd s p d)
                                          (take k (zip ps ds))))
                     (roach s) (snd (ps ! k))
                     (awidth (args s)) (dwidth (args s)) (dtype (args s)))
           \<and> trace (fold (animate_body cd) ps s)
               = trace s @ concat (map (\<lambda>(p, d). pair_events cd s p d) (zip ps ds))
           \<and> (\<forall>k < length ps.
                 artists (fig (fold (animate_body cd) ps s)) ! fst (ps ! k)
                 = (artists (fig s) ! fst (ps ! k))
                     \<lparr>xdata := freqs (derived s),
                      ydata := scale_and_dBFS_specdata cd (ds ! k)
                        (acclen (args s)) (nbits (args s)) (nchannels (derived s))\<rparr>)"
  using assms
proof (induction ps arbitrary: s)
  case Nil
  then show ?case by simp
next
  case (Cons p ps)
  let ?d = "read_interleave_data cd (trace s) (roach s) (snd p)
              (awidth (args s)) (dwidth (args s)) (dtype (args s))"
  let ?s1 = "animate_body cd p s"
  have len1: "length (artists (fig ?s1)) = length (artists (fig s))"
    by (simp add: animate_body_fig)
  from Cons.prems have dist: "distinct (map fst ps)" and notin: "fst p \<notin> fst ` set ps"
    and bound: "\<forall>q \<in> set ps. fst q < length (artists (fig ?s1))"
    and bp: "fst p < length (artists (fig s))"
    by (auto simp: len1)
  from Cons.IH [OF dist bound] obtain ds where
    l: "length ds = length ps"
    and r: "\<forall>k < length ps.
              ds ! k
              = read_interleave_data cd
                  (trace ?s1 @ concat (map (\<lambda>(p, d). pair_events cd ?s1 p d)
                                        (take k (zip ps ds))))
                  (roach ?s1) (snd (ps ! k))
                  (awidth (args ?s1)) (dwidth (args ?s1)) (dtype (args ?s1))"
    and t: "trace (fold (animate_body cd) ps ?s1)
            = trace ?s1 @ concat (map (\<lambda>(p, d). pair_events cd ?s1 p d) (zip ps ds))"
    and a: "\<forall>k < length ps.
              artists (fig (fold (animate_body cd) ps ?s1)) ! fst (ps ! k)
              = (artists (fig ?s1) ! fst (ps ! k))
                  \<lparr>xdata := freqs (derived ?s1),
                   ydata := scale_and_dBFS_specdata cd (ds ! k)
                     (acclen (args ?s1)) (nbits (args ?s1)) (nchannels (derived ?s1))\<rparr>"
    by blast
  have pe: "pair_events cd ?s1 = pair_events cd s"
    by (rule pair_events_cong) (simp_all add: animate_body_env)
  have t': "trace (fold (animate_body cd) (p # ps) s)
            = trace s @ concat (map (\<lambda>(p, d). pair_events cd s p d) (zip (p # ps) (?d # ds)))"
    using t by (simp add: animate_body_trace pe)
  have a': "artists (fig (fold (animate_body cd) (p # ps) s)) ! fst ((p # ps) ! k)
            = (artists (fig s) ! fst ((p # ps) ! k))
                \<lparr>xdata := freqs (derived s),
                 ydata := scale_and_dBFS_specdata cd ((?d # ds) ! k)
                   (acclen (args s)) (nbits (args s)) (nchannels (derived s))\<rparr>"
    if "k < length (p # ps)" for k
  proof (cases k)
    case 0
    have "artists (fig (fold (animate_body cd) ps ?s1)) ! fst p = artists (fig ?s1) ! fst p"
      by (rule fold_animate_body_untouched [OF notin])
    with bp 0 show ?thesis by (simp add: animate_body_fig)
  next
    case (Suc k')
    with that have k': "k' < length ps" by simp
    then have "fst (ps ! k') \<in> fst ` set ps" by simp
    with notin have ne: "fst (ps ! k') \<noteq> fst p" by metis
    have "artists (fig ?s1) ! fst (ps ! k') = artists (fig s) ! fst (ps ! k')"
      using ne by (simp add: animate_body_fig)
    with a k' Suc show ?thesis by (simp add: animate_body_env)
  qed
  have r': "(?d # ds) ! k
            = read_interleave_data cd
                (trace s @ concat (map (\<lambda>(p, d). pair_events cd s p d)
                                     (take k (zip (p # ps) (?d # ds)))))
                (roach s) (snd ((p # ps) ! k))
                (awidth (args s)) (dwidth (args s)) (dtype (args s))"
    if "k < length (p # ps)" for k
  proof (cases k)
    case 0
    then show ?thesis by simp
  next
    case (Suc k')
    with that have k': "k' < length ps" by simp
    with r have "ds ! k'
              = read_interleave_data cd
                  (trace ?s1 @ concat (map (\<lambda>(p, d). pair_events cd ?s1 p d)
                                        (take k' (zip ps ds))))
                  (roach ?s1) (snd (ps ! k'))
                  (awidth (args ?s1)) (dwidth (args ?s1)) (dtype (args ?s1))"
      by blast
    then show ?thesis
      unfolding Suc pe by (simp add: animate_body_env animate_body_trace)
  qed
  from l r' t' a' show ?case
    by (intro exI [of _ "?d # ds"]) simp
qed

subsection \<open>Runs of \<open>main\<close>\<close>

text \<open>
  The setup of a run completes when block names are given, the spectra count is one of
  the parser's choices and there is at least one block name per spectrum: the channel
  count is then positive and \<open>dBFS\<close>, from which the lower limit of every subplot is
  taken, is finite. With fewer block names than spectra the channel count is 0,
  \<open>dBFS\<close> is \<open>-inf\<close> and the figure builder ends the run.
\<close>

lemma animate_fst: "fst (animate cd s) = fold (animate_body cd) (zip (lines s) (specbrams_list (derived s))) s"
  by (simp add: animate_def)

lemma pair_events_quiet: "e \<in> set (pair_events cd s p d) \<Longrightarrow> \<not> is_write e \<and> \<not> is_init e"
  by (cases p) (auto simp: pair_events_def)

lemma fold_animate_body_quiet:
  "\<exists>evs. trace (fold (animate_body cd) ps s) = trace s @ evs
         \<and> (\<forall>e \<in> set evs. \<not> is_write e \<and> \<not> is_init e)"
proof (induction ps arbitrary: s)
  case Nil
  then show ?case by simp
next
  case (Cons p ps)
  from Cons.IH [of "animate_body cd p s"] obtain evs where
    t: "trace (fold (animate_body cd) ps (animate_body cd p s))
        = trace (animate_body cd p s) @ evs"
    and q: "\<forall>e \<in> set evs. \<not> is_write e \<and> \<not> is_init e"
    by blast
  let ?d = "read_interleave_data cd (trace s) (roach s) (snd p)
              (awidth (args s)) (dwidth (args s)) (dtype (args s))"
  have "trace (fold (animate_body cd) (p # ps) s) = trace s @ (pair_events cd s p ?d @ evs)"
    using t by (simp add: animate_body_trace)
  moreover have "\<forall>e \<in> set (pair_events cd s p ?d @ evs). \<not> is_write e \<and> \<not> is_init e"
    using q pair_events_quiet [of _ cd s p ?d] by auto
  ultimately show ?case by blast
qed

lemma run_frames_env:
  "args (run_frames cd n s) = args s
   \<and> roach (run_frames cd n s) = roach s
   \<and> derived (run_frames cd n s) = derived s
   \<and> lines (run_frames cd n s) = lines s
   \<and> grid (fig (run_frames cd n s)) = grid (fig s)
   \<and> axstore (fig (run_frames cd n s)) = axstore (fig s)
   \<and> tight_layout (fig (run_frames cd n s)) = tight_layout (fig s)
   \<and> length (artists (fig (run_frames cd n s))) = length (artists (fig s))
   \<and> map animated (artists (fig (run_frames cd n s))) = map animated (artists (fig s))"
proof (induction n arbitrary: s)
  case 0
  then show ?case by simp
next
  case (Suc n)
  show ?case
    using Suc.IH [of "fst (animate cd s)"]
      fold_animate_body_env [of cd "zip (lines s) (specbrams_list (derived s))" s]
    by (simp add: animate_fst)
qed

lemma run_frames_quiet:
  "\<exists>evs. trace (run_frames cd n s) = trace s @ evs
         \<and> (\<forall>e \<in> set evs. \<not> is_write e \<and> \<not> is_init e)"
proof (induction n arbitrary: s)
  case 0
  then show ?case by simp
next
  case (Suc n)
  let ?s1 = "fst (animate cd s)"
  from fold_animate_body_quiet [of cd "zip (lines s) (specbrams_list (derived s))" s]
  obtain evs1 where t1: "trace ?s1 = trace s @ evs1"
    and q1: "\<forall>e \<in> set evs1. \<not> is_write e \<and> \<not> is_init e"
    by (auto simp: animate_fst)
  from Suc.IH [of ?s1] obtain evs2 where t2: "trace (run_frames cd n ?s1) = trace ?s1 @ evs2"
    and q2: "\<forall>e \<in> set evs2. \<not> is_write e \<and> \<not> is_init e"
    by blast
  have "trace (run_frames cd (Suc n) s) = trace s @ (evs1 @ evs2)"
    using t1 t2 by simp
  moreover have "\<forall>e \<in> set (evs1 @ evs2). \<not> is_write e \<and> \<not> is_init e"
    using q1 q2 by auto
  ultimately show ?case by blast
qed

lemma set_registers_trace:
  "trace (set_registers s)
   = trace s @ [Print ''Setting and resetting registers...'',
                WriteInt (roach s) (acc_reg (args s)) (acclen (args s)),
                WriteInt (roach s) (count_reg (args s)) 1,
                WriteInt (roach s) (count_reg (args s)) 0,
                Print ''done'']"
  by (simp add: set_registers_def emit_def)

lemma set_registers_env:
  "args (set_registers s) = args s" "roach (set_registers s) = roach s"
  "derived (set_registers s) = derived s" "lines (set_registers s) = lines s"
  "fig (set_registers s) = fig s"
  by (simp_all add: set_registers_def emit_def)

lemma axmap_count:
  assumes "ns \<in> {1, 2, 4, 16}"
  shows "\<exists>r c. axmap ns = Some (r, c) \<and> r * c = nat ns"
  using assms by (auto simp: axmap_def)

lemma dBFS_Finite:
  assumes "0 < nch"
  shows "fadd c (fmul 10 (log10 nch)) = Finite (c + 10 * log 10 (real_of_int nch))"
  using assms by (simp add: log10_def)

lemma main_Some:
  assumes "bramnames a = Some bn" and "nspecs a \<in> {1, 2, 4, 16}"
    and "nspecs a \<le> int (length bn)"
  shows "\<exists>p f. derive a = Inr p
           \<and> length (specbrams_list p) = nat (nspecs a)
           \<and> length (artists f) = nat (nspecs a)
           \<and> main cd a n
               = Inr (run_frames cd n
                        (set_registers
                           \<lparr>args = a, roach = Roach (ip a) (boffile a) (rver a), derived = p,
                            fig = f, lines = [0..<nat (nspecs a)],
                            trace = [InitRoach (ip a) (boffile a) (rver a)]\<rparr>))"
proof -
  have pos: "0 < nspecs a" using assms(2) by (rule nspecs_pos)
  define k where "k = length bn div nat (nspecs a)"
  have "nat (nspecs a) \<le> length bn" using assms(3) by simp
  with pos have "0 < k" by (simp add: k_def div_greater_zero_iff)
  then have nch: "0 < (2::int) ^ awidth a * int k" by simp
  from derive_Some [OF assms(1) pos, folded k_def] obtain p where
    d: "derive a = Inr p" and l: "length (specbrams_list p) = nat (nspecs a)"
    and db: "dBFS p = fadd (6.02 * real_of_int (nbits a) + 1.76)
                        (fmul 10 (log10 (2 ^ awidth a * int k)))"
    by simp
  from db obtain x where fin: "dBFS p = Finite x"
    unfolding dBFS_Finite [OF nch] by blast
  from axmap_count [OF assms(2)] obtain r c where
    rc: "axmap (nspecs a) = Some (r, c)" and n: "r * c = nat (nspecs a)"
    by blast
  note cf = create_figure_shape [OF rc, of "bandwidth a" x, unfolded n]
  let ?f = "(subplots r c)
              \<lparr>tight_layout := True,
               axstore := map (\<lambda>j. configured (bandwidth a) x j new_axes)
                            [0..<nat (nspecs a)],
               artists := replicate (nat (nspecs a)) new_line\<rparr>"
  have m: "main cd a n
           = Inr (run_frames cd n
                    (set_registers
                       \<lparr>args = a, roach = Roach (ip a) (boffile a) (rver a), derived = p,
                        fig = ?f, lines = [0..<nat (nspecs a)],
                        trace = [InitRoach (ip a) (boffile a) (rver a)]\<rparr>))"
    by (simp add: main_def d fin cf)
  have "length (artists ?f) = nat (nspecs a)" by simp
  with d l m show ?thesis by (intro exI [of _ p] exI [of _ ?f] conjI)
qed





lemma reads_per_pair:
  "length (filter is_read (concat (map (\<lambda>(p, d). pair_events cd s p d) xs))) = length xs"
  by (induction xs) (auto simp: pair_events_def split: prod.splits)

text \<open>
  Claim C5. In a run with block names and at least one of them per spectrum, whatever
  the number of ticks, the events start with the opening of the board, followed by the
  register setter: the accumulation length written to the accumulation register, then 1
  and then 0 written to the counter register. Everything after that comes from the frame
  callback and contains no write and no second opening, so the three writes happen once,
  in this order, after the initialisation and before the first read.
\<close>

theorem register_writes:
  assumes "bramnames a = Some bn" and "nspecs a \<in> {1, 2, 4, 16}"
    and "nspecs a \<le> int (length bn)"
  shows "\<exists>s frames. main cd a n = Inr s
           \<and> trace s
               = [InitRoach (ip a) (boffile a) (rver a),
                  Print ''Setting and resetting registers...'',
                  WriteInt (Roach (ip a) (boffile a) (rver a)) (acc_reg a) (acclen a),
                  WriteInt (Roach (ip a) (boffile a) (rver a)) (count_reg a) 1,
                  WriteInt (Roach (ip a) (boffile a) (rver a)) (count_reg a) 0,
                  Print ''done''] @ frames
           \<and> (\<forall>e \<in> set frames. \<not> is_write e \<and> \<not> is_init e)"
proof -
  from main_Some [OF assms] obtain p f where
    m: "main cd a n
        = Inr (run_frames cd n
                 (set_registers
                    \<lparr>args = a, roach = Roach (ip a) (boffile a) (rver a), derived = p,
                     fig = f, lines = [0..<nat (nspecs a)],
                     trace = [InitRoach (ip a) (boffile a) (rver a)]\<rparr>))"
      (is "_ = Inr (run_frames cd n (set_registers ?s0))")
    by blast
  from run_frames_quiet [of cd n "set_registers ?s0"] obtain frames where
    t: "trace (run_frames cd n (set_registers ?s0)) = trace (set_registers ?s0) @ frames"
    and q: "\<forall>e \<in> set frames. \<not> is_write e \<and> \<not> is_init e"
    by blast
  from t have "trace (run_frames cd n (set_registers ?s0))
               = [InitRoach (ip a) (boffile a) (rver a),
                  Print ''Setting and resetting registers...'',
                  WriteInt (Roach (ip a) (boffile a) (rver a)) (acc_reg a) (acclen a),
                  WriteInt (Roach (ip a) (boffile a) (rver a)) (count_reg a) 1,
                  WriteInt (Roach (ip a) (boffile a) (rver a)) (count_reg a) 0,
                  Print ''done''] @ frames"
    by (simp add: set_registers_trace)
  with m q show ?thesis by blast
qed

theorem register_writes_witness:
  "bramnames four_brams = Some four_names \<and> nspecs four_brams \<in> {1, 2, 4, 16}
   \<and> nspecs four_brams \<le> int (length four_names)
   \<and> (\<forall>(cd :: int list calandigital) n. \<exists>s frames. main cd four_brams n = Inr s
           \<and> trace s
               = [InitRoach (ip four_brams) (boffile four_brams) (rver four_brams),
                  Print ''Setting and resetting registers...'',
                  WriteInt (Roach (ip four_brams) (boffile four_brams) (rver four_brams))
                    (acc_reg four_brams) (acclen four_brams),
                  WriteInt (Roach (ip four_brams) (boffile four_brams) (rver four_brams))
                    (count_reg four_brams) 1,
                  WriteInt (Roach (ip four_brams) (boffile four_brams) (rver four_brams))
                    (count_reg four_brams) 0,
                  Print ''done''] @ frames
           \<and> (\<forall>e \<in> set frames. \<not> is_write e \<and> \<not> is_init e))"
proof -
  have h1: "bramnames four_brams = Some four_names"
    by (simp add: four_brams_def)
  have h2: "nspecs four_brams \<in> {1, 2, 4, 16}"
    by (simp add: four_brams_def defaults_def)
  have h3: "nspecs four_brams \<le> int (length four_names)"
    by (simp add: four_brams_def defaults_def four_names_def)
  from h1 h2 h3 register_writes [OF h1 h2 h3] show ?thesis by blast
qed

text \<open>
  Claim C8. In such a run, after any number of ticks, the next tick walks the pairs of
  \<open>zip(lines, specbrams_list)\<close> in order. The samples \<open>ds ! k\<close> of pair \<open>k\<close> are what
  \<open>read_interleave_data\<close> returns for the handle of the run, the block names of group
  \<open>k\<close> and the configured address width, data width and data type, after the events of
  the pairs before it. For each pair the tick logs that read, scales what it returned
  with the accumulation length, the bit count and the channel count, and assigns the
  frequency axis and the scaled data to that line, in this order and before it turns to
  the next pair. It returns the whole list of lines, and the number of reads in a tick
  is the spectra count: two for two spectra over four block names.
\<close>

theorem animate_tick:
  assumes "bramnames a = Some bn" and "nspecs a \<in> {1, 2, 4, 16}"
    and "nspecs a \<le> int (length bn)"
  shows "\<exists>s ds. main cd a n = Inr s
           \<and> args s = a \<and> derive a = Inr (derived s)
           \<and> roach s = Roach (ip a) (boffile a) (rver a)
           \<and> length (lines s) = nat (nspecs a)
           \<and> length (specbrams_list (derived s)) = nat (nspecs a)
           \<and> length ds = nat (nspecs a)
           \<and> (\<forall>k < nat (nspecs a).
                 ds ! k
                 = read_interleave_data cd
                     (trace s @ concat (map (\<lambda>(p, d). pair_events cd s p d)
                        (take k (zip (zip (lines s) (specbrams_list (derived s))) ds))))
                     (roach s) (specbrams_list (derived s) ! k)
                     (awidth a) (dwidth a) (dtype a))
           \<and> trace (fst (animate cd s))
               = trace s @ concat (map (\<lambda>(p, d). pair_events cd s p d)
                                    (zip (zip (lines s) (specbrams_list (derived s))) ds))
           \<and> (\<forall>k < nat (nspecs a).
                 artists (fig (fst (animate cd s))) ! (lines s ! k)
                 = (artists (fig s) ! (lines s ! k))
                     \<lparr>xdata := freqs (derived s),
                      ydata := scale_and_dBFS_specdata cd (ds ! k) (acclen a) (nbits a)
                                 (nchannels (derived s))\<rparr>)
           \<and> snd (animate cd s) = lines s
           \<and> length (filter is_read (drop (length (trace s)) (trace (fst (animate cd s)))))
               = nat (nspecs a)"
proof -
  define N where "N = nat (nspecs a)"
  from main_Some [OF assms, of cd n, folded N_def] obtain p f s where
    d: "derive a = Inr p" and lg: "length (specbrams_list p) = N"
    and la: "length (artists f) = N"
    and s: "s = run_frames cd n
                 (set_registers
                    \<lparr>args = a, roach = Roach (ip a) (boffile a) (rver a), derived = p,
                     fig = f, lines = [0..<N],
                     trace = [InitRoach (ip a) (boffile a) (rver a)]\<rparr>)"
    and m: "main cd a n = Inr s"
    by blast
  have env: "args s = a" "derived s = p" "lines s = [0..<N]"
    "length (artists (fig s)) = N"
    unfolding s by (simp_all add: run_frames_env set_registers_env la)
  have ro: "roach s = Roach (ip a) (boffile a) (rver a)"
    unfolding s by (simp add: run_frames_env set_registers_env)
  define ps where "ps = zip (lines s) (specbrams_list (derived s))"
  have lps: "length ps = N" by (simp add: ps_def env lg)
  have fsts: "map fst ps = [0..<N]"
    unfolding ps_def env by (simp add: lg)
  have dist: "distinct (map fst ps)" unfolding fsts by simp
  have bound: "\<forall>q \<in> set ps. fst q < length (artists (fig s))"
  proof
    fix q assume "q \<in> set ps"
    then have "fst q \<in> set (map fst ps)" by simp
    then show "fst q < length (artists (fig s))" unfolding fsts env by simp
  qed
  from fold_animate_body [OF dist bound, of cd] obtain ds where
    lds: "length ds = length ps"
    and rd: "\<forall>k < length ps.
               ds ! k
               = read_interleave_data cd
                   (trace s @ concat (map (\<lambda>(p, d). pair_events cd s p d)
                                        (take k (zip ps ds))))
                   (roach s) (snd (ps ! k))
                   (awidth (args s)) (dwidth (args s)) (dtype (args s))"
    and t: "trace (fold (animate_body cd) ps s)
            = trace s @ concat (map (\<lambda>(p, d). pair_events cd s p d) (zip ps ds))"
    and ar: "\<forall>k < length ps.
               artists (fig (fold (animate_body cd) ps s)) ! fst (ps ! k)
               = (artists (fig s) ! fst (ps ! k))
                   \<lparr>xdata := freqs (derived s),
                    ydata := scale_and_dBFS_specdata cd (ds ! k)
                      (acclen (args s)) (nbits (args s)) (nchannels (derived s))\<rparr>"
    by blast
  have an: "fst (animate cd s) = fold (animate_body cd) ps s"
    by (simp add: animate_fst ps_def)
  have fk: "fst (ps ! k) = lines s ! k" if "k < N" for k
    using that by (simp add: ps_def env lg)
  have sk: "snd (ps ! k) = specbrams_list (derived s) ! k" if "k < N" for k
    using that by (simp add: ps_def env lg)
  have rd': "\<forall>k < N.
               ds ! k
               = read_interleave_data cd
                   (trace s @ concat (map (\<lambda>(p, d). pair_events cd s p d)
                      (take k (zip (zip (lines s) (specbrams_list (derived s))) ds))))
                   (roach s) (specbrams_list (derived s) ! k)
                   (awidth a) (dwidth a) (dtype a)"
  proof (intro allI impI)
    fix k assume k: "k < N"
    with rd lps have "ds ! k
               = read_interleave_data cd
                   (trace s @ concat (map (\<lambda>(p, d). pair_events cd s p d)
                                        (take k (zip ps ds))))
                   (roach s) (snd (ps ! k))
                   (awidth (args s)) (dwidth (args s)) (dtype (args s))"
      by simp
    then show "ds ! k
               = read_interleave_data cd
                   (trace s @ concat (map (\<lambda>(p, d). pair_events cd s p d)
                      (take k (zip (zip (lines s) (specbrams_list (derived s))) ds))))
                   (roach s) (specbrams_list (derived s) ! k)
                   (awidth a) (dwidth a) (dtype a)"
      unfolding env(1) ps_def using sk [OF k, unfolded ps_def] by simp
  qed
  have t': "trace (fst (animate cd s))
            = trace s @ concat (map (\<lambda>(p, d). pair_events cd s p d)
                                 (zip (zip (lines s) (specbrams_list (derived s))) ds))"
    using t by (simp only: an ps_def)
  have ar': "\<forall>k < N. artists (fig (fst (animate cd s))) ! (lines s ! k)
               = (artists (fig s) ! (lines s ! k))
                   \<lparr>xdata := freqs (derived s),
                    ydata := scale_and_dBFS_specdata cd (ds ! k) (acclen a) (nbits a)
                               (nchannels (derived s))\<rparr>"
  proof (intro allI impI)
    fix k assume k: "k < N"
    with ar lps have "artists (fig (fold (animate_body cd) ps s)) ! fst (ps ! k)
               = (artists (fig s) ! fst (ps ! k))
                   \<lparr>xdata := freqs (derived s),
                    ydata := scale_and_dBFS_specdata cd (ds ! k)
                      (acclen (args s)) (nbits (args s)) (nchannels (derived s))\<rparr>"
      by simp
    then show "artists (fig (fst (animate cd s))) ! (lines s ! k)
               = (artists (fig s) ! (lines s ! k))
                   \<lparr>xdata := freqs (derived s),
                    ydata := scale_and_dBFS_specdata cd (ds ! k) (acclen a) (nbits a)
                               (nchannels (derived s))\<rparr>"
      unfolding fk [OF k] an env(1) .
  qed
  have cnt: "length (filter is_read (drop (length (trace s)) (trace (fst (animate cd s))))) = N"
    unfolding t' by (simp add: reads_per_pair lds lps env lg)
  have "args s = a \<and> derive a = Inr (derived s)
        \<and> length (lines s) = N \<and> length (specbrams_list (derived s)) = N
        \<and> length ds = N"
    using d lg lds lps by (simp add: env)
  moreover have "snd (animate cd s) = lines s" by (simp add: animate_def)
  ultimately show ?thesis
    unfolding N_def [symmetric] using m ro rd' t' ar' cnt by blast
qed

theorem animate_tick_witness:
  "bramnames four_brams = Some four_names \<and> nspecs four_brams \<in> {1, 2, 4, 16}
   \<and> nspecs four_brams \<le> int (length four_names)
   \<and> nat (nspecs four_brams) = 2
   \<and> (\<forall>(cd :: int list calandigital) n. \<exists>s ds. main cd four_brams n = Inr s
           \<and> args s = four_brams \<and> derive four_brams = Inr (derived s)
           \<and> roach s = Roach (ip four_brams) (boffile four_brams) (rver four_brams)
           \<and> length (lines s) = nat (nspecs four_brams)
           \<and> length (specbrams_list (derived s)) = nat (nspecs four_brams)
           \<and> length ds = nat (nspecs four_brams)
           \<and> (\<forall>k < nat (nspecs four_brams).
                 ds ! k
                 = read_interleave_data cd
                     (trace s @ concat (map (\<lambda>(p, d). pair_events cd s p d)
                        (take k (zip (zip (lines s) (specbrams_list (derived s))) ds))))
                     (roach s) (specbrams_list (derived s) ! k)
                     (awidth four_brams) (dwidth four_brams) (dtype four_brams))
           \<and> trace (fst (animate cd s))
               = trace s @ concat (map (\<lambda>(p, d). pair_events cd s p d)
                                    (zip (zip (lines s) (specbrams_list (derived s))) ds))
           \<and> (\<forall>k < nat (nspecs four_brams).
                 artists (fig (fst (animate cd s))) ! (lines s ! k)
                 = (artists (fig s) ! (lines s ! k))
                     \<lparr>xdata := freqs (derived s),
                      ydata := scale_and_dBFS_specdata cd (ds ! k) (acclen four_brams)
                                 (nbits four_brams) (nchannels (derived s))\<rparr>)
           \<and> snd (animate cd s) = lines s
           \<and> length (filter is_read (drop (length (trace s)) (trace (fst (animate cd s)))))
               = nat (nspecs four_brams))"
proof -
  have h1: "bramnames four_brams = Some four_names"
    by (simp add: four_brams_def)
  have h2: "nspecs four_brams \<in> {1, 2, 4, 16}"
    by (simp add: four_brams_def defaults_def)
  have h3: "nspecs four_brams \<le> int (length four_names)"
    by (simp add: four_brams_def defaults_def four_names_def)
  have h4: "nat (nspecs four_brams) = 2"
    by (simp add: four_brams_def defaults_def)
  from h1 h2 h3 h4 animate_tick [OF h1 h2 h3] show ?thesis by blast
qed

text \<open>
  Claim C9. A tick, and any number of ticks, leaves the configuration, the handle, the
  derived parameters (frequency axis, channel count and grouping among them), the list
  of lines and the figure's grid and axes as they were. Of the lines, only the plotted
  data can differ: their number and their \<open>animated\<close> flags are unchanged.
\<close>

theorem animate_frame:
  "args (fst (animate cd s)) = args s
   \<and> roach (fst (animate cd s)) = roach s
   \<and> derived (fst (animate cd s)) = derived s
   \<and> freqs (derived (fst (animate cd s))) = freqs (derived s)
   \<and> nchannels (derived (fst (animate cd s))) = nchannels (derived s)
   \<and> specbrams_list (derived (fst (animate cd s))) = specbrams_list (derived s)
   \<and> lines (fst (animate cd s)) = lines s
   \<and> grid (fig (fst (animate cd s))) = grid (fig s)
   \<and> axstore (fig (fst (animate cd s))) = axstore (fig s)
   \<and> tight_layout (fig (fst (animate cd s))) = tight_layout (fig s)
   \<and> length (artists (fig (fst (animate cd s)))) = length (artists (fig s))
   \<and> map animated (artists (fig (fst (animate cd s)))) = map animated (artists (fig s))
   \<and> args (run_frames cd n s) = args s
   \<and> roach (run_frames cd n s) = roach s
   \<and> derived (run_frames cd n s) = derived s
   \<and> lines (run_frames cd n s) = lines s
   \<and> grid (fig (run_frames cd n s)) = grid (fig s)
   \<and> axstore (fig (run_frames cd n s)) = axstore (fig s)
   \<and> tight_layout (fig (run_frames cd n s)) = tight_layout (fig s)
   \<and> length (artists (fig (run_frames cd n s))) = length (artists (fig s))
   \<and> map animated (artists (fig (run_frames cd n s))) = map animated (artists (fig s))"
  using fold_animate_body_env [of cd "zip (lines s) (specbrams_list (derived s))" s]
    run_frames_env [of cd n s]
  by (simp add: animate_fst)

subsection \<open>The command line\<close>

text \<open>A flag other than \<open>-bn\<close> leaves \<open>bramnames\<close> alone, and \<open>choices\<close> stay enforced.\<close>

lemma store_bramnames:
  "store x c = Inr c' \<Longrightarrow> \<forall>ns. x \<noteq> Bramnames ns \<Longrightarrow> bramnames c' = bramnames c"
  by (cases x) (auto split: if_splits)

lemma store_all_bramnames:
  "store_all argv c = Inr c' \<Longrightarrow> \<forall>ns. Bramnames ns \<notin> set argv \<Longrightarrow>
   bramnames c' = bramnames c"
proof (induction argv arbitrary: c)
  case Nil
  then show ?case by simp
next
  case (Cons x argv)
  from Cons.prems(1) obtain c1 where s1: "store x c = Inr c1"
    and r: "store_all argv c1 = Inr c'"
    by (auto split: sum.splits)
  from Cons.prems(2) have "\<forall>ns. x \<noteq> Bramnames ns" and "\<forall>ns. Bramnames ns \<notin> set argv"
    by auto
  with s1 r Cons.IH [of c1] show ?case
    by (simp add: store_bramnames)
qed

lemma store_choices:
  "store x c = Inr c' \<Longrightarrow> nspecs c \<in> {1, 2, 4, 16} \<Longrightarrow> nspecs c' \<in> {1, 2, 4, 16}"
  by (cases x) (auto split: if_splits)

lemma store_all_choices:
  "store_all argv c = Inr c' \<Longrightarrow> nspecs c \<in> {1, 2, 4, 16} \<Longrightarrow> nspecs c' \<in> {1, 2, 4, 16}"
proof (induction argv arbitrary: c)
  case Nil
  then show ?case by simp
next
  case (Cons x argv)
  from Cons.prems(1) obtain c1 where s1: "store x c = Inr c1"
    and r: "store_all argv c1 = Inr c'"
    by (auto split: sum.splits)
  from store_choices [OF s1 Cons.prems(2)] r show ?case by (rule Cons.IH [rotated])
qed

lemma parse_args_nspecs: "parse_args argv = Inr a \<Longrightarrow> nspecs a \<in> {1, 2, 4, 16}"
proof -
  assume "parse_args argv = Inr a"
  then have "store_all argv defaults = Inr a"
    by (auto simp: parse_args_def split: sum.splits if_splits)
  then show ?thesis by (rule store_all_choices) (simp add: defaults_def)
qed

text \<open>
  Claim C10. \<open>--bramnames\<close> is optional and has no default: a command line without it
  that parses leaves \<open>bramnames\<close> at \<open>None\<close>, and the script then ends with a
  \<open>TypeError\<close>, not a usage error, after the board has been opened and before anything
  else is done to it. The command line \<open>-i 10.0.0.2\<close> is one.
\<close>

theorem missing_bramnames:
  assumes "parse_args argv = Inr a" and "\<forall>ns. Bramnames ns \<notin> set argv"
  shows "bramnames a = None
         \<and> script cd argv n = Inl (TypeError, [InitRoach (ip a) (boffile a) (rver a)])"
proof -
  from assms(1) have "store_all argv defaults = Inr a"
    by (auto simp: parse_args_def split: sum.splits if_splits)
  from store_all_bramnames [OF this assms(2)] have b: "bramnames a = None"
    by (simp add: defaults_def)
  then have "derive a = Inl TypeError" by (simp add: derive_def)
  then have "main cd a n = Inl (TypeError, [InitRoach (ip a) (boffile a) (rver a)])"
    by (simp add: main_def)
  with b assms(1) show ?thesis by (simp add: script_def)
qed

theorem missing_bramnames_witness:
  "parse_args only_ip = Inr (defaults\<lparr>ip := Some ''10.0.0.2''\<rparr>)
   \<and> (\<forall>ns. Bramnames ns \<notin> set only_ip)
   \<and> bramnames (defaults\<lparr>ip := Some ''10.0.0.2''\<rparr>) = None
   \<and> (\<forall>(cd :: int list calandigital) n.
         script cd only_ip n
         = Inl (TypeError, [InitRoach (Some ''10.0.0.2'') None 2]))"
proof -
  have h1: "parse_args only_ip = Inr (defaults\<lparr>ip := Some ''10.0.0.2''\<rparr>)"
    by (simp add: parse_args_def only_ip_def defaults_def)
  have h2: "\<forall>ns. Bramnames ns \<notin> set only_ip"
    by (simp add: only_ip_def)
  have "script cd only_ip n = Inl (TypeError, [InitRoach (Some ''10.0.0.2'') None 2])"
    for cd :: "int list calandigital" and n
    using missing_bramnames [OF h1 h2, of cd n] by (simp add: defaults_def)
  with h1 h2 show ?thesis by (simp add: defaults_def)
qed

end
